theory Spec2Isabelle
  imports Main "HOL-Library.Word" "HOL-Library.Multiset"
begin

unbundle bit_operations_syntax

section \<open>Errors\<close>

text \<open>
  Every \<^verbatim>\<open>throw\<close> of the modelled functions is a value of this type. The last
  constructor marks the places where the C++ source reads outside a container
  (\<^verbatim>\<open>back()\<close> of an empty vector, dereferencing an iterator that is
  \<^verbatim>\<open>end()\<close> or lies before \<^verbatim>\<open>begin()\<close>): the language gives
  such a read no meaning, and the model yields no result there.
\<close>

datatype error =
    Demux_error                \<comment> \<open>\<^verbatim>\<open>std::invalid_argument("[ERROR] Demux error")\<close>\<close>
  | No_GOP                     \<comment> \<open>\<^verbatim>\<open>std::out_of_range("[ERROR] The video must have at least one GOP")\<close>\<close>
  | Unsupported_codec          \<comment> \<open>\<^verbatim>\<open>std::domain_error("[ERROR] Unsupported video codec: ...")\<close>\<close>
  | Frame_behind_last_GOP      \<comment> \<open>\<^verbatim>\<open>std::out_of_range("[ERROR] End frame of last GOP : ...")\<close>\<close>
  | No_GOP_for_frame           \<comment> \<open>\<^verbatim>\<open>std::out_of_range("[ERROR] Can not find a gop for frame: ...")\<close>\<close>
  | VFR_not_supported          \<comment> \<open>\<^verbatim>\<open>std::domain_error("[ERROR] VFR video is not supported for GOP seeking")\<close>\<close>
  | Out_of_bounds              \<comment> \<open>a read outside a container\<close>

section \<open>Key-frame classifier (GopDecoderUtils.hpp)\<close>

text \<open>
  \<^verbatim>\<open>AVCodecID\<close> is declared by libavcodec; the source distinguishes three of its
  values and treats every other one alike.
\<close>

datatype AVCodecID =
    AV_CODEC_ID_HEVC
  | AV_CODEC_ID_H264
  | AV_CODEC_ID_AV1
  | AV_CODEC_ID_OTHER nat

text \<open>
  Modelled from the spec: the container's own key-frame flag. The macro
  \<^verbatim>\<open>AV_PKT_FLAG_KEY\<close> is declared by libavcodec and is not part of the sources;
  it is the lowest bit of the packet flags.
\<close>

definition AV_PKT_FLAG_KEY :: "32 word" where
  "AV_PKT_FLAG_KEY = 1"

abbreviation (input) H264_NAL_SEI :: int where "H264_NAL_SEI \<equiv> 6"
abbreviation (input) H264_NAL_SPS :: int where "H264_NAL_SPS \<equiv> 7"
abbreviation (input) H264_NAL_PPS :: int where "H264_NAL_PPS \<equiv> 8"
abbreviation (input) H264_NAL_AUD :: int where "H264_NAL_AUD \<equiv> 9"

abbreviation (input) HEVC_NAL_VPS :: int where "HEVC_NAL_VPS \<equiv> 32"
abbreviation (input) HEVC_NAL_SPS :: int where "HEVC_NAL_SPS \<equiv> 33"
abbreviation (input) HEVC_NAL_PPS :: int where "HEVC_NAL_PPS \<equiv> 34"
abbreviation (input) HEVC_NAL_PREFIX_SEI :: int where "HEVC_NAL_PREFIX_SEI \<equiv> 39"
abbreviation (input) HEVC_NAL_SUFFIX_SEI :: int where "HEVC_NAL_SUFFIX_SEI \<equiv> 40"

abbreviation (input) OBU_SEQUENCE_HEADER :: int where "OBU_SEQUENCE_HEADER \<equiv> 1"

text \<open>
  A \<^verbatim>\<open>const uint8_t*\<close> is either null (\<open>None\<close>) or the view of the bytes that
  follow the address: \<open>p i\<close> is \<^verbatim>\<open>pVideo[i]\<close>. The classifier receives the pointer
  without a length, as in the source.
\<close>

type_synonym packet_ptr = "(nat \<Rightarrow> 8 word) option"

text \<open>\<^verbatim>\<open>uint8_t b = pVideo[2] == 1 ? pVideo[3] : pVideo[4];\<close>\<close>

definition nal_header :: "(nat \<Rightarrow> 8 word) \<Rightarrow> 8 word" where
  "nal_header p = (if p 2 = 1 then p 3 else p 4)"

definition iskeyFrame :: "AVCodecID \<Rightarrow> packet_ptr \<Rightarrow> 32 word \<Rightarrow> error + bool" where
  "iskeyFrame codec_id pVideo demux_flags =
     (case pVideo of
        None \<Rightarrow> Inr False
      | Some p \<Rightarrow>
          (case codec_id of
             AV_CODEC_ID_HEVC \<Rightarrow>
               (let b = nal_header p;
                    nal_unit_type = uint (drop_bit 1 b);
                    bPS = (nal_unit_type = HEVC_NAL_VPS \<or> nal_unit_type = HEVC_NAL_SPS \<or>
                           nal_unit_type = HEVC_NAL_PPS \<or> nal_unit_type = HEVC_NAL_PREFIX_SEI \<or>
                           nal_unit_type = HEVC_NAL_SUFFIX_SEI)
                in Inr (demux_flags AND AV_PKT_FLAG_KEY \<noteq> 0 \<and> bPS))
           | AV_CODEC_ID_H264 \<Rightarrow>
               (let b = nal_header p;
                    nal_unit_type = uint (b AND 0x1f);
                    bPS = (nal_unit_type = H264_NAL_SEI \<or> nal_unit_type = H264_NAL_SPS \<or>
                           nal_unit_type = H264_NAL_PPS \<or> nal_unit_type = H264_NAL_AUD)
                in Inr (demux_flags AND AV_PKT_FLAG_KEY \<noteq> 0 \<and> bPS))
           | AV_CODEC_ID_AV1 \<Rightarrow>
               (let obu_header = p 0;
                    obu_type = uint (drop_bit 3 obu_header AND 0x0F);
                    bPS = (obu_type = OBU_SEQUENCE_HEADER)
                in Inr (demux_flags AND AV_PKT_FLAG_KEY \<noteq> 0 \<and> bPS))
           | AV_CODEC_ID_OTHER n \<Rightarrow> Inl Unsupported_codec))"

definition hasKeyFrameNalType :: "AVCodecID \<Rightarrow> packet_ptr \<Rightarrow> error + bool" where
  "hasKeyFrameNalType codec_id pVideo =
     (case pVideo of
        None \<Rightarrow> Inr False
      | Some p \<Rightarrow>
          (case codec_id of
             AV_CODEC_ID_HEVC \<Rightarrow>
               (let b = nal_header p;
                    nal_unit_type = uint (drop_bit 1 b)
                in Inr (nal_unit_type = HEVC_NAL_VPS \<or> nal_unit_type = HEVC_NAL_SPS \<or>
                        nal_unit_type = HEVC_NAL_PPS \<or> nal_unit_type = HEVC_NAL_PREFIX_SEI \<or>
                        nal_unit_type = HEVC_NAL_SUFFIX_SEI))
           | AV_CODEC_ID_H264 \<Rightarrow>
               (let b = nal_header p;
                    nal_unit_type = uint (b AND 0x1f)
                in Inr (nal_unit_type = H264_NAL_SEI \<or> nal_unit_type = H264_NAL_SPS \<or>
                        nal_unit_type = H264_NAL_PPS \<or> nal_unit_type = H264_NAL_AUD))
           | AV_CODEC_ID_AV1 \<Rightarrow>
               (let obu_header = p 0;
                    obu_type = uint (drop_bit 3 obu_header AND 0x0F)
                in Inr (obu_type = OBU_SEQUENCE_HEADER))
           | AV_CODEC_ID_OTHER n \<Rightarrow> Inl Unsupported_codec))"

text \<open>The three codec families the classifier supports.\<close>

fun supported_codec :: "AVCodecID \<Rightarrow> bool" where
  "supported_codec (AV_CODEC_ID_OTHER n) = False"
| "supported_codec _ = True"

text \<open>A pointer to the given bytes, followed by zero padding.\<close>

definition ptr_to :: "8 word list \<Rightarrow> packet_ptr" where
  "ptr_to bs = Some (\<lambda>i. if i < length bs then bs ! i else 0)"

section \<open>GOP index builder (GopDecoderUtils.hpp)\<close>

text \<open>
  \<^verbatim>\<open>FFmpegDemuxer\<close> is an external collaborator. One call of
  \<^verbatim>\<open>demuxer->Demux(&pVideo, &nVideoBytes, &timestamp, &flags)\<close> is modelled by what
  it leaves in its result and its out-parameters; a demuxer is the list of the calls it
  will answer. A call on a demuxer that has nothing left reports the end of the stream:
  \<^verbatim>\<open>nVideoBytes\<close> is 0.
\<close>

record demux_call =
  ret :: bool
  pVideo :: packet_ptr
  nVideoBytes :: int
  timestamp :: int
  flags :: "32 word"

text \<open>
  The \<^verbatim>\<open>do ... while (nVideoBytes)\<close> loop of \<^verbatim>\<open>parse_gop_start_idx\<close>: it collects
  \<^verbatim>\<open>pts_keyFrame_pair\<close>. (\<^verbatim>\<open>frame_cnt\<close> is counted and never read.)
\<close>

fun demux_loop ::
  "AVCodecID \<Rightarrow> demux_call list \<Rightarrow> (int \<times> bool) list \<Rightarrow> error + (int \<times> bool) list" where
  "demux_loop codec [] pts_keyFrame_pair = Inr pts_keyFrame_pair"
| "demux_loop codec (d # ds) pts_keyFrame_pair =
     (if nVideoBytes d \<noteq> 0 then
        (if \<not> ret d then Inl Demux_error
         else
           (case iskeyFrame codec (pVideo d) (flags d) of
              Inl e \<Rightarrow> Inl e
            | Inr is_key_frame \<Rightarrow>
                demux_loop codec ds (pts_keyFrame_pair @ [(timestamp d, is_key_frame)])))
      else Inr pts_keyFrame_pair)"

text \<open>
  The \<^verbatim>\<open>for\<close> loop over the sorted pairs. The state is \<^verbatim>\<open>gop_start_idx\<close> and the two
  maps the caller passed by reference; the result also carries the final
  \<^verbatim>\<open>current_frame_idx\<close>.
\<close>

type_synonym index_state = "int list \<times> (int \<rightharpoonup> int) \<times> (int \<rightharpoonup> int)"

fun index_loop :: "bool \<Rightarrow> (int \<times> bool) list \<Rightarrow> int \<Rightarrow> index_state \<Rightarrow> int \<times> index_state" where
  "index_loop isVFR [] current_frame_idx st = (current_frame_idx, st)"
| "index_loop isVFR ((current_timestamp, isKeyFrame) # rest) current_frame_idx
       (gop_start_idx, frame2pts, pts2frame) =
     index_loop isVFR rest (current_frame_idx + 1)
       (if isKeyFrame then gop_start_idx @ [current_frame_idx] else gop_start_idx,
        if isVFR then frame2pts(current_frame_idx \<mapsto> current_timestamp) else frame2pts,
        if isVFR then pts2frame(current_timestamp \<mapsto> current_frame_idx) else pts2frame)"

text \<open>
  \<^verbatim>\<open>std::sort\<close> with the comparison \<^verbatim>\<open>a.first < b.first\<close> rearranges the pairs so that
  the timestamps ascend. It is not stable: which of the pairs with equal timestamps comes
  first is left to the library. The sort is therefore a parameter \<open>std_sort\<close> of the
  model, and \<open>sorts_by_timestamp\<close> is all that is known of it.
\<close>

definition sorts_by_timestamp :: "((int \<times> bool) list \<Rightarrow> (int \<times> bool) list) \<Rightarrow> bool" where
  "sorts_by_timestamp std_sort =
     (\<forall>xs. mset (std_sort xs) = mset xs \<and> sorted (map fst (std_sort xs)))"

text \<open>
  \<^verbatim>\<open>parse_gop_start_idx\<close>. The function returns the boundary table together with the
  two maps it updated.
\<close>

definition parse_gop_start_idx ::
  "((int \<times> bool) list \<Rightarrow> (int \<times> bool) list) \<Rightarrow> AVCodecID \<Rightarrow> demux_call list
     \<Rightarrow> (int \<rightharpoonup> int) \<Rightarrow> (int \<rightharpoonup> int) \<Rightarrow> bool \<Rightarrow> error + index_state" where
  "parse_gop_start_idx std_sort codec demuxer frame2pts pts2frame isVFR =
     (case demux_loop codec demuxer [] of
        Inl e \<Rightarrow> Inl e
      | Inr pts_keyFrame_pair \<Rightarrow>
          (case index_loop isVFR (std_sort pts_keyFrame_pair) 0 ([], frame2pts, pts2frame) of
             (current_frame_idx, gop_start_idx, frame2pts', pts2frame') \<Rightarrow>
               (let gop_start_idx' = gop_start_idx @ [current_frame_idx]
                in if length gop_start_idx' \<le> 0 then Inl No_GOP
                   else Inr (gop_start_idx', frame2pts', pts2frame'))))"

text \<open>
  \<^verbatim>\<open>std::upper_bound\<close> and \<^verbatim>\<open>std::lower_bound\<close> as positions in the list: the first
  position whose element is greater than (not less than) the value, the length of the
  list standing for \<^verbatim>\<open>end()\<close>.
\<close>

definition upper_bound :: "int list \<Rightarrow> int \<Rightarrow> nat" where
  "upper_bound xs v = length (takeWhile (\<lambda>x. x \<le> v) xs)"

definition lower_bound :: "int list \<Rightarrow> int \<Rightarrow> nat" where
  "lower_bound xs v = length (takeWhile (\<lambda>x. x < v) xs)"

lemma upper_bound_le_length: "upper_bound xs v \<le> length xs"
  by (simp add: upper_bound_def length_takeWhile_le)

lemma lower_bound_le_length: "lower_bound xs v \<le> length xs"
  by (simp add: lower_bound_def length_takeWhile_le)

lemma upper_bound_nth_gt: "upper_bound xs v < length xs \<Longrightarrow> v < xs ! upper_bound xs v"
  unfolding upper_bound_def using nth_length_takeWhile [of "\<lambda>x. x \<le> v" xs] by simp

lemma lower_bound_nth_ge: "lower_bound xs v < length xs \<Longrightarrow> v \<le> xs ! lower_bound xs v"
  unfolding lower_bound_def using nth_length_takeWhile [of "\<lambda>x. x < v" xs] by simp

lemma upper_bound_before: "i < upper_bound xs v \<Longrightarrow> xs ! i \<le> v"
  unfolding upper_bound_def
  using nth_mem [of i "takeWhile (\<lambda>x. x \<le> v) xs"] set_takeWhileD [of "xs ! i" "\<lambda>x. x \<le> v" xs]
  by (simp add: takeWhile_nth)

lemma lower_bound_before: "i < lower_bound xs v \<Longrightarrow> xs ! i < v"
  unfolding lower_bound_def
  using nth_mem [of i "takeWhile (\<lambda>x. x < v) xs"] set_takeWhileD [of "xs ! i" "\<lambda>x. x < v" xs]
  by (simp add: takeWhile_nth)

lemma upper_bound_mono_step:
  assumes "n < length xs" and "n = upper_bound xs v" and "xs ! n \<le> w"
  shows "n < upper_bound xs w"
proof -
  have "v < xs ! n"
    using assms(1,2) upper_bound_nth_gt by simp
  then have "xs ! i \<le> w" if "i < Suc n" for i
    using that assms(2,3) upper_bound_before [of i xs v] by (cases "i = n") auto
  then have "Suc n \<le> length (takeWhile (\<lambda>x. x \<le> w) xs)"
    using assms(1) by (intro length_takeWhile_less_P_nth) auto
  then show ?thesis
    by (simp add: upper_bound_def)
qed

text \<open>A value as a 32-bit \<^verbatim>\<open>int\<close> holds it: reduced modulo \<open>2 ^ 32\<close> into the signed range.\<close>

definition to_int32 :: "int \<Rightarrow> int" where
  "to_int32 x = sint (word_of_int x :: 32 word)"

text \<open>
  The loop of \<^verbatim>\<open>parse_gop_length\<close>; \<^verbatim>\<open>iter\<close> is a position in
  \<^verbatim>\<open>sorted_frame_ids\<close>. The source dereferences \<^verbatim>\<open>next_key_it\<close> without comparing it
  with \<^verbatim>\<open>end()\<close>. The length of a GOP is a difference of two 32-bit \<^verbatim>\<open>int\<close>s and
  wraps around where it leaves their range.
\<close>

function gop_length_loop ::
  "int list \<Rightarrow> int list \<Rightarrow> nat \<Rightarrow> int list \<times> int list \<Rightarrow> error + (int list \<times> int list)" where
  "gop_length_loop gop_start_id_list sorted_frame_ids iter (gop_length, first_frame_ids) =
     (if iter < length sorted_frame_ids then
        (let next_key_it = upper_bound gop_start_id_list (sorted_frame_ids ! iter) in
         if next_key_it = 0 then Inl No_GOP_for_frame
         else if length gop_start_id_list \<le> next_key_it then Inl Out_of_bounds
         else
           gop_length_loop gop_start_id_list sorted_frame_ids
             (lower_bound sorted_frame_ids (gop_start_id_list ! next_key_it))
             (gop_length @
                [to_int32 (gop_start_id_list ! next_key_it - gop_start_id_list ! (next_key_it - 1))],
              first_frame_ids @ [gop_start_id_list ! (next_key_it - 1)]))
      else Inr (gop_length, first_frame_ids))"
  by pat_completeness auto
termination
proof (relation "measure (\<lambda>(gop, ids, iter, acc).
         if iter < length ids then Suc (length gop - upper_bound gop (ids ! iter)) else 0)",
       goal_cases)
  case 1
  show ?case by simp
next
  case (2 gop ids iter gop_length first_frame_ids nk)
  let ?j = "lower_bound ids (gop ! nk)"
  have nk: "nk < length gop" "nk = upper_bound gop (ids ! iter)"
    using 2 by simp_all
  show ?case
  proof (cases "?j < length ids")
    case False
    with 2 show ?thesis by simp
  next
    case True
    then have "gop ! nk \<le> ids ! ?j"
      by (rule lower_bound_nth_ge)
    then have "nk < upper_bound gop (ids ! ?j)"
      using nk by (intro upper_bound_mono_step [of nk gop "ids ! iter"]) auto
    moreover have "upper_bound gop (ids ! ?j) \<le> length gop"
      by (rule upper_bound_le_length)
    ultimately show ?thesis
      using True 2 nk by simp
  qed
qed

declare gop_length_loop.simps [simp del]

text \<open>
  \<^verbatim>\<open>parse_gop_length\<close>: \<^verbatim>\<open>back()\<close> of an empty vector is a read outside the container.
  The result is \<^verbatim>\<open>gop_length\<close> together with the \<^verbatim>\<open>first_frame_ids\<close> the caller passed
  by reference.
\<close>

definition parse_gop_length ::
  "int list \<Rightarrow> int list \<Rightarrow> int list \<Rightarrow> error + (int list \<times> int list)" where
  "parse_gop_length gop_start_id_list sorted_frame_ids first_frame_ids =
     (if sorted_frame_ids = [] \<or> gop_start_id_list = [] then Inl Out_of_bounds
      else if last gop_start_id_list \<le> last sorted_frame_ids then Inl Frame_behind_last_GOP
      else gop_length_loop gop_start_id_list sorted_frame_ids 0 ([], first_frame_ids))"

section \<open>Key-frame lookup of the demuxer wrapper (PyNvGopDemuxer.cpp)\<close>

text \<open>
  \<^verbatim>\<open>PyNvGopDemuxer::getKeyFrameId\<close> over the member \<^verbatim>\<open>key_frame_ids\<close>. The source
  dereferences \<^verbatim>\<open>cur_key_it\<close> and \<^verbatim>\<open>cur_key_it - 1\<close> unguarded; the model guards both
  reads and has no value where a read is outside the vector.
\<close>

definition getKeyFrameId :: "int list \<Rightarrow> int \<Rightarrow> int option" where
  "getKeyFrameId key_frame_ids frame_id =
     (let cur_key_it = lower_bound key_frame_ids frame_id in
      if cur_key_it < length key_frame_ids then
        (if key_frame_ids ! cur_key_it = frame_id then Some (key_frame_ids ! cur_key_it)
         else if 0 < cur_key_it then Some (key_frame_ids ! (cur_key_it - 1))
         else None)
      else None)"

text \<open>
  The GOPs of a boundary table are the half-open intervals between consecutive
  boundaries; \<open>gops_containing\<close> lists the GOPs a frame id belongs to.
\<close>

fun gops :: "int list \<Rightarrow> (int \<times> int) list" where
  "gops (a # b # bs) = (a, b) # gops (b # bs)"
| "gops bs = []"

definition gops_containing :: "int list \<Rightarrow> int \<Rightarrow> (int \<times> int) list" where
  "gops_containing table frame_id = filter (\<lambda>(a, b). a \<le> frame_id \<and> frame_id < b) (gops table)"

text \<open>Packets of an H.264 stream: a parameter-set unit flagged as key frame, and a plain slice.\<close>

definition key_packet :: "int \<Rightarrow> demux_call" where
  "key_packet ts =
     \<lparr>ret = True, pVideo = ptr_to [0, 0, 0, 1, 0x67], nVideoBytes = 5, timestamp = ts, flags = 1\<rparr>"

definition plain_packet :: "int \<Rightarrow> demux_call" where
  "plain_packet ts =
     \<lparr>ret = True, pVideo = ptr_to [0, 0, 0, 1, 0x41], nVideoBytes = 5, timestamp = ts, flags = 0\<rparr>"

text \<open>
  The positions of the key frames of a list of pairs, counted from \<open>i\<close>: what the walk
  of \<open>index_loop\<close> appends to \<^verbatim>\<open>gop_start_idx\<close>.
\<close>

fun key_frame_idx :: "int \<Rightarrow> (int \<times> bool) list \<Rightarrow> int list" where
  "key_frame_idx i [] = []"
| "key_frame_idx i ((ts, k) # ps) =
     (if k then i # key_frame_idx (i + 1) ps else key_frame_idx (i + 1) ps)"

section \<open>Unmapped seek (PyNvGopDemuxer.cpp)\<close>

text \<open>
  The demuxer as \<^verbatim>\<open>SeekGopFirstFrameNoMap\<close> uses it. \<^verbatim>\<open>SeekWithTS\<close> reads and moves
  the demuxer's position, a state of type \<open>'d\<close> that is passed along; one call leaves
  its result, the packet pointer, the byte count and \<^verbatim>\<open>timestamp_out\<close>.
\<close>

record seek_call =
  seek_ret :: bool
  seek_pVideo :: packet_ptr
  seek_nVideoBytes :: int
  timestamp_out :: int

record 'd FFmpegDemuxer =
  IsVFRV2 :: bool
  GetVideoCodec :: AVCodecID
  TsFromFrameNumber :: "int \<Rightarrow> int"
  FrameNumFromTs :: "int \<Rightarrow> int"
  SeekWithTS :: "'d \<Rightarrow> int \<Rightarrow> seek_call \<times> 'd"

text \<open>The caller's variables the function writes through its pointer and reference arguments.\<close>

record seek_vars =
  ppVideo :: packet_ptr
  pnVideoBytes :: int
  frame_id_out :: int

text \<open>
  \<^verbatim>\<open>int current_timestamp_to_seek = ...\<close>: the timestamp is narrowed to 32 bits
  (\<open>to_int32\<close>).
\<close>

text \<open>
  The \<^verbatim>\<open>while (!found_key_frame && current_frame_to_seek >= 0)\<close> loop. Nothing bounds the
  number of its rounds (a demuxer may answer every seek with the same later packet), so
  the model counts them: every test of the loop condition takes one unit of fuel, and
  \<open>None\<close> is a run that has not returned when the fuel is used up.
\<close>

fun seek_loop ::
  "nat \<Rightarrow> 'd FFmpegDemuxer \<Rightarrow> int \<Rightarrow> int \<Rightarrow> bool \<Rightarrow> 'd \<Rightarrow> seek_vars
     \<Rightarrow> (error + bool \<times> seek_vars \<times> 'd) option" where
  "seek_loop 0 demuxer frame_id_to_seek current_frame_to_seek found_key_frame s vars = None"
| "seek_loop (Suc fuel) demuxer frame_id_to_seek current_frame_to_seek found_key_frame s vars =
     (if \<not> found_key_frame \<and> 0 \<le> current_frame_to_seek then
        (let current_timestamp_to_seek = to_int32 (TsFromFrameNumber demuxer current_frame_to_seek);
             (call, s') = SeekWithTS demuxer s current_timestamp_to_seek;
             vars1 = vars\<lparr>ppVideo := seek_pVideo call, pnVideoBytes := seek_nVideoBytes call\<rparr>
         in if \<not> seek_ret call then Some (Inr (False, vars1, s'))
            else
              (let vars2 = vars1\<lparr>frame_id_out := FrameNumFromTs demuxer (timestamp_out call)\<rparr>
               in if ppVideo vars2 = None then Some (Inr (False, vars2, s'))
                  else
                    (case hasKeyFrameNalType (GetVideoCodec demuxer) (ppVideo vars2) of
                       Inl e \<Rightarrow> Some (Inl e)
                     | Inr True \<Rightarrow>
                         (if frame_id_to_seek < frame_id_out vars2 then
                            seek_loop fuel demuxer frame_id_to_seek (current_frame_to_seek - 1)
                              False s' vars2
                          else
                            seek_loop fuel demuxer frame_id_to_seek current_frame_to_seek
                              True s' vars2)
                     | Inr False \<Rightarrow>
                         (if frame_id_out vars2 - 1 < 0 then Some (Inr (False, vars2, s'))
                          else
                            seek_loop fuel demuxer frame_id_to_seek (frame_id_out vars2 - 1)
                              False s' vars2))))
      else Some (Inr (found_key_frame, vars, s)))"

definition SeekGopFirstFrameNoMap ::
  "nat \<Rightarrow> 'd FFmpegDemuxer \<Rightarrow> 'd \<Rightarrow> seek_vars \<Rightarrow> int \<Rightarrow> (error + bool \<times> seek_vars \<times> 'd) option" where
  "SeekGopFirstFrameNoMap fuel demuxer s vars frame_id_to_seek =
     (if IsVFRV2 demuxer then Some (Inl VFR_not_supported)
      else seek_loop fuel demuxer frame_id_to_seek frame_id_to_seek False s vars)"

text \<open>
  A constant-frame-rate H.264 stream with a key frame every fourth frame, timestamps
  equal to frame ids, whose seek returns the key frame at or before the timestamp.
\<close>

definition cfr_demuxer :: "unit FFmpegDemuxer" where
  "cfr_demuxer =
     \<lparr>IsVFRV2 = False, GetVideoCodec = AV_CODEC_ID_H264,
      TsFromFrameNumber = (\<lambda>n. n), FrameNumFromTs = (\<lambda>ts. ts),
      SeekWithTS = (\<lambda>s ts.
        (\<lparr>seek_ret = True, seek_pVideo = ptr_to [0, 0, 0, 1, 0x67], seek_nVideoBytes = 5,
          timestamp_out = 4 * (ts div 4)\<rparr>, s))\<rparr>"

section \<open>Task runner (ThreadPool.hpp)\<close>

text \<open>
  What a task throws: an exception derived from \<^verbatim>\<open>std::exception\<close>, which the first
  handler of \<^verbatim>\<open>threadLoop\<close> catches, or an object of any other type, which
  \<^verbatim>\<open>catch (...)\<close> catches.
\<close>

datatype 'e thrown = Std_exception 'e | Other_exception 'e

text \<open>
  The state the worker thread and the callers share under the mutex. A queued task is
  modelled by what running it does to the runner: it returns (\<open>None\<close>) or throws
  (\<open>Some\<close>). \<^verbatim>\<open>exceptionPtr\<close> is null (\<open>None\<close>) or holds what was thrown.
\<close>

record 'e ThreadRunner =
  tasks :: "'e thrown option list"
  stopFlag :: bool
  busy :: bool
  hasException :: bool
  exceptionPtr :: "'e thrown option"

definition new_ThreadRunner :: "'e ThreadRunner" where
  "new_ThreadRunner =
     \<lparr>tasks = [], stopFlag = False, busy = False, hasException = False, exceptionPtr = None\<rparr>"

definition start :: "'e ThreadRunner \<Rightarrow> 'e thrown option \<Rightarrow> 'e ThreadRunner" where
  "start r task = r\<lparr>tasks := tasks r @ [task]\<rparr>"

text \<open>
  \<^verbatim>\<open>threadLoop\<close>: the worker takes the front task, runs it, records what it threw and
  clears \<^verbatim>\<open>busy\<close>, until the queue is empty; there it waits (or leaves, when
  \<^verbatim>\<open>stopFlag\<close> is set). Both handlers store \<^verbatim>\<open>std::current_exception()\<close>.
\<close>

function threadLoop :: "'e ThreadRunner \<Rightarrow> 'e ThreadRunner" where
  "threadLoop r =
     (case tasks r of
        [] \<Rightarrow> r
      | task # rest \<Rightarrow>
          (let r1 = r\<lparr>tasks := rest, busy := True\<rparr>;
               r2 = (case task of
                       None \<Rightarrow> r1
                     | Some (Std_exception e) \<Rightarrow>
                         r1\<lparr>exceptionPtr := Some (Std_exception e), hasException := True\<rparr>
                     | Some (Other_exception x) \<Rightarrow>
                         r1\<lparr>exceptionPtr := Some (Other_exception x), hasException := True\<rparr>)
           in threadLoop (r2\<lparr>busy := False\<rparr>)))"
  by pat_completeness auto
termination
  by (relation "measure (\<lambda>r. length (tasks r))") (auto split: option.splits thrown.splits)

declare threadLoop.simps [simp del]

datatype 'e join_error =
    Task_exception "'e thrown"   \<comment> \<open>\<^verbatim>\<open>std::rethrow_exception(ptr)\<close>\<close>
  | Unknown_task_failure    \<comment> \<open>\<^verbatim>\<open>std::runtime_error("Thread task failed with unknown exception")\<close>\<close>

text \<open>
  \<^verbatim>\<open>join\<close>: \<open>None\<close> while the wait for \<^verbatim>\<open>tasks.empty() && !busy\<close> is not over;
  otherwise what the call raises or \<open>Inr ()\<close>, and the runner it leaves.
\<close>

definition join :: "'e ThreadRunner \<Rightarrow> (('e join_error + unit) \<times> 'e ThreadRunner) option" where
  "join r =
     (if tasks r = [] \<and> \<not> busy r then
        (if hasException r then
           (let ptr = exceptionPtr r;
                r' = r\<lparr>hasException := False, exceptionPtr := None\<rparr>
            in case ptr of
                 Some ex \<Rightarrow> Some (Inl (Task_exception ex), r')
               | None \<Rightarrow> Some (Inl Unknown_task_failure, r'))
         else Some (Inr (), r))
      else None)"

section \<open>Async decode pipeline (PyNvSampleReader.cpp)\<close>












section \<open>Properties of the key-frame classifier\<close>

text \<open>
  C8. For each of the three supported codec families, every non-null packet pointer and
  every flag word, \<open>iskeyFrame\<close> returns true exactly when \<open>hasKeyFrameNalType\<close>
  returns true and the key-frame flag bit is set in the flags; for any other codec
  family both predicates raise the unsupported-codec domain error on such a pointer.
  (On a null pointer both return false before they look at the codec.)
\<close>

theorem iskeyFrame_iff_hasKeyFrameNalType_and_flag:
  "(supported_codec codec_id \<longrightarrow>
      iskeyFrame codec_id (Some p) demux_flags =
        Inr (hasKeyFrameNalType codec_id (Some p) = Inr True \<and>
             demux_flags AND AV_PKT_FLAG_KEY \<noteq> 0)) \<and>
   (\<not> supported_codec codec_id \<longrightarrow>
      iskeyFrame codec_id (Some p) demux_flags = Inl Unsupported_codec \<and>
      hasKeyFrameNalType codec_id (Some p) = Inl Unsupported_codec)"
  by (cases codec_id) (auto simp: iskeyFrame_def hasKeyFrameNalType_def Let_def)

theorem iskeyFrame_iff_hasKeyFrameNalType_and_flag_witness:
  "iskeyFrame AV_CODEC_ID_HEVC (Some (\<lambda>i. if i = 3 then 1 else if i = 4 then 0x40 else 0)) 1 =
     Inr True \<and>
   iskeyFrame AV_CODEC_ID_HEVC (Some (\<lambda>i. if i = 3 then 1 else if i = 4 then 0x40 else 0)) 2 =
     Inr False \<and>
   iskeyFrame (AV_CODEC_ID_OTHER 0) (Some (\<lambda>i. 0)) 1 = Inl Unsupported_codec \<and>
   hasKeyFrameNalType (AV_CODEC_ID_OTHER 0) (Some (\<lambda>i. 0)) = Inl Unsupported_codec"
  using
    iskeyFrame_iff_hasKeyFrameNalType_and_flag
      [of AV_CODEC_ID_HEVC "\<lambda>i. if i = 3 then 1 else if i = 4 then 0x40 else 0" 1]
    iskeyFrame_iff_hasKeyFrameNalType_and_flag
      [of AV_CODEC_ID_HEVC "\<lambda>i. if i = 3 then 1 else if i = 4 then 0x40 else 0" 2]
    iskeyFrame_iff_hasKeyFrameNalType_and_flag [of "AV_CODEC_ID_OTHER 0" "\<lambda>i. 0" 1]
  by (simp add: hasKeyFrameNalType_def nal_header_def AV_PKT_FLAG_KEY_def)

section \<open>Properties of the GOP index builder\<close>

lemma index_loop_idx: "fst (index_loop isVFR ps i st) = i + int (length ps)"
  by (induction isVFR ps i st rule: index_loop.induct) auto

lemma index_loop_gop:
  "fst (snd (index_loop isVFR ps i (g, a, b))) = g @ key_frame_idx i ps"
  by (induction ps arbitrary: i g a b) auto

lemma key_frame_idx_bounds:
  "x \<in> set (key_frame_idx i ps) \<Longrightarrow> i \<le> x \<and> x < i + int (length ps)"
  by (induction i ps rule: key_frame_idx.induct) (auto split: if_splits)

lemma key_frame_idx_sorted: "sorted_wrt (<) (key_frame_idx i ps)"
  by (induction i ps rule: key_frame_idx.induct) (auto dest: key_frame_idx_bounds)

lemma key_frame_idx_hd:
  "\<exists>p \<in> set ps. snd p \<Longrightarrow>
     key_frame_idx i ps \<noteq> [] \<and>
     hd (key_frame_idx i ps) = i + int (length (takeWhile (\<lambda>p. \<not> snd p) ps))"
proof (induction i ps rule: key_frame_idx.induct)
  case (2 i ts k ps)
  show ?case
  proof (cases k)
    case True
    then show ?thesis by simp
  next
    case False
    then have "\<exists>p \<in> set ps. snd p"
      using 2(3) by auto
    then show ?thesis
      using False 2(2) by simp
  qed
qed simp

lemma key_frame_idx_none: "\<forall>p \<in> set ps. \<not> snd p \<Longrightarrow> key_frame_idx i ps = []"
  by (induction i ps rule: key_frame_idx.induct) auto

lemma gops_containing_below:
  "sorted_wrt (<) table \<Longrightarrow> table \<noteq> [] \<Longrightarrow> f < hd table \<Longrightarrow> gops_containing table f = []"
  unfolding gops_containing_def
  by (induction table rule: gops.induct) auto

lemma gops_containing_unique:
  "sorted_wrt (<) table \<Longrightarrow> table \<noteq> [] \<Longrightarrow> hd table \<le> f \<Longrightarrow> f < last table \<Longrightarrow>
     \<exists>g. gops_containing table f = [g]"
proof (induction table rule: gops.induct)
  case (1 a b bs)
  show ?case
  proof (cases "f < b")
    case True
    then have "gops_containing (b # bs) f = []"
      using 1 by (intro gops_containing_below) auto
    then show ?thesis
      using True 1 by (simp add: gops_containing_def)
  next
    case False
    then have "\<exists>g. gops_containing (b # bs) f = [g]"
      using 1 by (intro 1) (auto split: if_splits)
    then show ?thesis
      using False by (simp add: gops_containing_def)
  qed
qed simp_all

lemma sorted_wrt_snoc_less:
  "sorted_wrt (<) xs \<Longrightarrow> \<forall>x \<in> set xs. x < (n::int) \<Longrightarrow> sorted_wrt (<) (xs @ [n])"
  by (simp add: sorted_wrt_append)

text \<open>What follows for any sort that meets \<open>sorts_by_timestamp\<close>.\<close>

lemma sort_key_sorts_by_timestamp: "sorts_by_timestamp (sort_key fst)"
  by (simp add: sorts_by_timestamp_def)

lemma std_sort_length: "sorts_by_timestamp std_sort \<Longrightarrow> length (std_sort xs) = length xs"
  unfolding sorts_by_timestamp_def using mset_eq_length by blast

lemma std_sort_set: "sorts_by_timestamp std_sort \<Longrightarrow> set (std_sort xs) = set xs"
  unfolding sorts_by_timestamp_def using mset_eq_setD by blast

lemma filter_same_key:
  "distinct (map f xs) \<Longrightarrow> k \<in> set xs \<Longrightarrow> filter (\<lambda>x. f k = f x) xs = [k]"
proof (induction xs)
  case Nil
  then show ?case by simp
next
  case (Cons x xs)
  show ?case
  proof (cases "k = x")
    case True
    have "filter (\<lambda>y. f x = f y) xs = []"
      using Cons.prems(1) by (auto simp: filter_empty_conv)
    then show ?thesis
      using True by simp
  next
    case False
    then have k: "k \<in> set xs"
      using Cons.prems(2) by simp
    then have "f k \<in> f ` set xs"
      by (rule imageI)
    then have "f k \<noteq> f x"
      using Cons.prems(1) by auto
    then show ?thesis
      using Cons k by simp
  qed
qed

text \<open>Where the timestamps are pairwise distinct, the order of the sorted pairs is fixed.\<close>

lemma std_sort_distinct_timestamps:
  assumes "sorts_by_timestamp std_sort" and "distinct (map fst xs)"
  shows "std_sort xs = sort_key fst xs"
proof -
  let ?ys = "std_sort xs"
  have m: "mset ?ys = mset xs" and s: "sorted (map fst ?ys)"
    using assms(1) by (simp_all add: sorts_by_timestamp_def)
  have "mset (map fst ?ys) = mset (map fst xs)"
    using m by simp
  then have d: "distinct (map fst ?ys)"
    using assms(2) mset_eq_imp_distinct_iff by blast
  have same: "filter (\<lambda>x. fst k = fst x) ?ys = filter (\<lambda>x. fst k = fst x) xs" if "k \<in> set ?ys" for k
  proof -
    have "k \<in> set xs"
      using that mset_eq_setD [OF m] by simp
    then show ?thesis
      using filter_same_key [OF d that] filter_same_key [OF assms(2)] by simp
  qed
  show ?thesis
    using properties_for_sort_key [OF m same s] by simp
qed

lemma parse_gop_start_idx_distinct_timestamps:
  assumes "sorts_by_timestamp std_sort" and "demux_loop codec demuxer [] = Inr pairs"
    and "distinct (map fst pairs)"
  shows "parse_gop_start_idx std_sort codec demuxer frame2pts pts2frame isVFR =
         parse_gop_start_idx (sort_key fst) codec demuxer frame2pts pts2frame isVFR"
  using assms(2) std_sort_distinct_timestamps [OF assms(1,3)]
  by (simp add: parse_gop_start_idx_def)

lemma demux_two_packets:
  "demux_loop AV_CODEC_ID_H264 [plain_packet 0, plain_packet 1] [] = Inr [(0, False), (1, False)]"
  by (simp add: plain_packet_def iskeyFrame_def ptr_to_def nal_header_def AV_PKT_FLAG_KEY_def)

lemma demux_three_packets:
  "demux_loop AV_CODEC_ID_H264 [plain_packet 0, key_packet 1, plain_packet 2] [] =
     Inr [(0, False), (1, True), (2, False)]"
  by (simp add: key_packet_def plain_packet_def iskeyFrame_def ptr_to_def nal_header_def
      AV_PKT_FLAG_KEY_def)

lemma demux_ten_packets:
  "demux_loop AV_CODEC_ID_H264
     [key_packet 0, plain_packet 1, plain_packet 2, plain_packet 3, key_packet 4,
      plain_packet 5, plain_packet 6, plain_packet 7, key_packet 8, plain_packet 9] [] =
     Inr [(0, True), (1, False), (2, False), (3, False), (4, True),
          (5, False), (6, False), (7, False), (8, True), (9, False)]"
  by (simp add: key_packet_def plain_packet_def iskeyFrame_def ptr_to_def nal_header_def
      AV_PKT_FLAG_KEY_def)

text \<open>
  Without a key-frame pair the function returns the table that holds the sentinel only,
  whatever the stream.
\<close>

lemma parse_gop_start_idx_sentinel_only:
  assumes "sorts_by_timestamp std_sort"
    and "demux_loop codec demuxer [] = Inr pairs" and "\<forall>p \<in> set pairs. \<not> snd p"
  shows "\<exists>f2p p2f. parse_gop_start_idx std_sort codec demuxer frame2pts pts2frame isVFR =
           Inr ([int (length pairs)], f2p, p2f)"
proof -
  let ?ps = "std_sort pairs"
  let ?r = "index_loop isVFR ?ps 0 ([], frame2pts, pts2frame)"
  obtain n g a b where r: "?r = (n, g, a, b)"
    by (cases ?r) auto
  have "n = int (length pairs)"
    using index_loop_idx [of isVFR ?ps 0 "([], frame2pts, pts2frame)"] r
      std_sort_length [OF assms(1), of pairs] by simp
  moreover have "g = key_frame_idx 0 ?ps"
    using index_loop_gop [of isVFR ?ps 0 "[]" frame2pts pts2frame] r by simp
  moreover have "key_frame_idx 0 ?ps = []"
    using assms(3) std_sort_set [OF assms(1), of pairs] by (intro key_frame_idx_none) simp
  ultimately show ?thesis
    using assms(2) r by (simp add: parse_gop_start_idx_def)
qed

text \<open>
  C1. The claim: when no pair is a key frame, \<open>parse_gop_start_idx\<close> fails with the
  "must have at least one GOP" error. The source tests \<^verbatim>\<open>gop_start_idx.size() <= 0\<close>
  after it has pushed the trailing sentinel, so the test never holds: on a stream of two
  packets that are not key frames the function returns the table \<open>[2]\<close>, whatever the
  sort does.
\<close>

theorem parse_gop_start_idx_without_key_frame:
  assumes "sorts_by_timestamp std_sort"
  shows "parse_gop_start_idx std_sort AV_CODEC_ID_H264 [plain_packet 0, plain_packet 1]
           Map.empty Map.empty False = Inr ([2], Map.empty, Map.empty)"
proof -
  have "parse_gop_start_idx std_sort AV_CODEC_ID_H264 [plain_packet 0, plain_packet 1]
          Map.empty Map.empty False =
        parse_gop_start_idx (sort_key fst) AV_CODEC_ID_H264 [plain_packet 0, plain_packet 1]
          Map.empty Map.empty False"
    using parse_gop_start_idx_distinct_timestamps [OF assms demux_two_packets] by simp
  also have "\<dots> = Inr ([2], Map.empty, Map.empty)"
    unfolding parse_gop_start_idx_def demux_two_packets by simp
  finally show ?thesis .
qed

theorem parse_gop_start_idx_without_key_frame_witness:
  "sorts_by_timestamp (sort_key fst) \<and>
   parse_gop_start_idx (sort_key fst) AV_CODEC_ID_H264 [plain_packet 0, plain_packet 1]
     Map.empty Map.empty False = Inr ([2], Map.empty, Map.empty)"
  using parse_gop_start_idx_without_key_frame [OF sort_key_sorts_by_timestamp]
    sort_key_sorts_by_timestamp
  by simp

text \<open>
  On three packets with timestamps 0, 1 and 2 of which only the second is a key frame,
  every sort leaves the table \<open>[1, 3]\<close>.
\<close>

lemma parse_gop_start_idx_three_packets:
  assumes "sorts_by_timestamp std_sort"
  shows "parse_gop_start_idx std_sort AV_CODEC_ID_H264
           [plain_packet 0, key_packet 1, plain_packet 2] Map.empty Map.empty False =
         Inr ([1, 3], Map.empty, Map.empty)"
proof -
  have "parse_gop_start_idx std_sort AV_CODEC_ID_H264
          [plain_packet 0, key_packet 1, plain_packet 2] Map.empty Map.empty False =
        parse_gop_start_idx (sort_key fst) AV_CODEC_ID_H264
          [plain_packet 0, key_packet 1, plain_packet 2] Map.empty Map.empty False"
    using parse_gop_start_idx_distinct_timestamps [OF assms demux_three_packets] by simp
  also have "\<dots> = Inr ([1, 3], Map.empty, Map.empty)"
    unfolding parse_gop_start_idx_def demux_three_packets by simp
  finally show ?thesis .
qed

text \<open>
  C3. The claim as stated fails: when the first pair in timestamp order is not a key
  frame, the frame ids before the first boundary belong to no GOP. On three packets of
  which only the second is a key frame the table is \<open>[1, 3]\<close> and frame id 0 is in none
  of its GOPs. (The timestamps are distinct, so the sort has no choice.)
\<close>

theorem frame_before_first_key_frame_in_no_gop:
  "sorts_by_timestamp (sort_key fst) \<and>
   parse_gop_start_idx (sort_key fst) AV_CODEC_ID_H264
     [plain_packet 0, key_packet 1, plain_packet 2] Map.empty Map.empty False =
     Inr ([1, 3], Map.empty, Map.empty) \<and>
   (0::int) < 3 \<and> gops_containing [1, 3] 0 = []"
  using parse_gop_start_idx_three_packets [OF sort_key_sorts_by_timestamp]
    sort_key_sorts_by_timestamp
  by (simp add: gops_containing_def)

text \<open>
  C3, amended. For every demultiplexed sequence with at least one key-frame pair, the
  boundary table \<open>parse_gop_start_idx\<close> returns is strictly increasing, starts at the
  position of the first key frame in the sorted sequence, and its last entry is the
  total frame count; every frame id from the first boundary up to the total belongs to
  exactly one GOP, and a frame id before the first boundary belongs to none.
\<close>

theorem parse_gop_start_idx_partition:
  assumes "sorts_by_timestamp std_sort"
    and "demux_loop codec demuxer [] = Inr pairs" and "\<exists>p \<in> set pairs. snd p"
  shows "\<exists>table f2p p2f.
           parse_gop_start_idx std_sort codec demuxer frame2pts pts2frame isVFR =
             Inr (table, f2p, p2f) \<and>
           sorted_wrt (<) table \<and>
           hd table = int (length (takeWhile (\<lambda>p. \<not> snd p) (std_sort pairs))) \<and>
           last table = int (length pairs) \<and>
           (\<forall>f. hd table \<le> f \<and> f < int (length pairs) \<longrightarrow> (\<exists>g. gops_containing table f = [g])) \<and>
           (\<forall>f. f < hd table \<longrightarrow> gops_containing table f = [])"
proof -
  let ?ps = "std_sort pairs"
  let ?r = "index_loop isVFR ?ps 0 ([], frame2pts, pts2frame)"
  let ?table = "key_frame_idx 0 ?ps @ [int (length pairs)]"
  have len: "length ?ps = length pairs"
    using assms(1) by (rule std_sort_length)
  obtain n g a b where r: "?r = (n, g, a, b)"
    by (cases ?r) auto
  have n: "n = int (length pairs)"
    using index_loop_idx [of isVFR ?ps 0 "([], frame2pts, pts2frame)"] r len by simp
  have g: "g = key_frame_idx 0 ?ps"
    using index_loop_gop [of isVFR ?ps 0 "[]" frame2pts pts2frame] r by simp
  have res: "parse_gop_start_idx std_sort codec demuxer frame2pts pts2frame isVFR =
               Inr (?table, a, b)"
    using assms(2) r n g by (simp add: parse_gop_start_idx_def)
  have key: "\<exists>p \<in> set ?ps. snd p"
    using assms(3) std_sort_set [OF assms(1), of pairs] by simp
  have ne: "key_frame_idx 0 ?ps \<noteq> []"
    and hd0: "hd (key_frame_idx 0 ?ps) = int (length (takeWhile (\<lambda>p. \<not> snd p) ?ps))"
    using key_frame_idx_hd [OF key, of 0] by simp_all
  have lt: "\<forall>x \<in> set (key_frame_idx 0 ?ps). x < int (length pairs)"
    using key_frame_idx_bounds [of _ 0 ?ps] len by auto
  have sorted: "sorted_wrt (<) ?table"
    using key_frame_idx_sorted lt by (intro sorted_wrt_snoc_less) auto
  have hd: "hd ?table = int (length (takeWhile (\<lambda>p. \<not> snd p) ?ps))"
    using ne hd0 by simp
  have last: "last ?table = int (length pairs)"
    by simp
  have one: "\<exists>g. gops_containing ?table f = [g]" if "hd ?table \<le> f" "f < int (length pairs)" for f
    using sorted that by (intro gops_containing_unique) auto
  have none: "gops_containing ?table f = []" if "f < hd ?table" for f
    using sorted that by (intro gops_containing_below) auto
  show ?thesis
    using res sorted hd last one none by blast
qed

theorem parse_gop_start_idx_partition_witness:
  "\<exists>table f2p p2f.
     parse_gop_start_idx (sort_key fst) AV_CODEC_ID_H264
       [plain_packet 0, key_packet 1, plain_packet 2] Map.empty Map.empty False =
       Inr (table, f2p, p2f) \<and>
     sorted_wrt (<) table \<and> hd table = 1 \<and> last table = 3 \<and>
     (\<exists>g. gops_containing table 2 = [g]) \<and> gops_containing table 0 = []"
proof -
  have key: "\<exists>p \<in> set [(0::int, False), (1, True), (2, False)]. snd p"
    by simp
  from parse_gop_start_idx_partition
    [OF sort_key_sorts_by_timestamp demux_three_packets key, of Map.empty Map.empty False]
  obtain table f2p p2f where
    res: "parse_gop_start_idx (sort_key fst) AV_CODEC_ID_H264
            [plain_packet 0, key_packet 1, plain_packet 2] Map.empty Map.empty False =
            Inr (table, f2p, p2f)"
    and sorted: "sorted_wrt (<) table"
    and hd: "hd table = 1" and last: "last table = 3"
    and one: "\<And>f. hd table \<le> f \<and> f < 3 \<Longrightarrow> \<exists>g. gops_containing table f = [g]"
    and none: "\<And>f. f < hd table \<Longrightarrow> gops_containing table f = []"
    by auto
  have "\<exists>g. gops_containing table 2 = [g]"
    using one [of 2] hd by simp
  moreover have "gops_containing table 0 = []"
    using none [of 0] hd by simp
  ultimately show ?thesis
    using res sorted hd last by blast
qed

text \<open>
  C4. For every non-empty sorted list of requested frame ids and every (non-empty)
  boundary table, if some requested id is greater than or equal to the last boundary,
  \<open>parse_gop_length\<close> fails with the out-of-range error and returns no lengths.
\<close>

theorem parse_gop_length_out_of_range:
  assumes "sorted_frame_ids \<noteq> []" and "sorted sorted_frame_ids" and "gop_start_id_list \<noteq> []"
    and "\<exists>frame_id \<in> set sorted_frame_ids. last gop_start_id_list \<le> frame_id"
  shows "parse_gop_length gop_start_id_list sorted_frame_ids first_frame_ids = Inl Frame_behind_last_GOP"
proof -
  obtain x where x: "x \<in> set sorted_frame_ids" "last gop_start_id_list \<le> x"
    using assms(4) by blast
  obtain i where i: "i < length sorted_frame_ids" "sorted_frame_ids ! i = x"
    using x(1) by (auto simp: in_set_conv_nth)
  have "sorted_frame_ids ! i \<le> sorted_frame_ids ! (length sorted_frame_ids - 1)"
    using assms(2) i(1) by (intro sorted_nth_mono) auto
  then have "x \<le> last sorted_frame_ids"
    using assms(1) i(2) by (simp add: last_conv_nth)
  then show ?thesis
    using assms(1,3) x(2) by (simp add: parse_gop_length_def)
qed

theorem parse_gop_length_out_of_range_witness:
  "parse_gop_length [0, 4, 8, 10] [6, 10] [] = Inl Frame_behind_last_GOP"
  using parse_gop_length_out_of_range [of "[6, 10]" "[0, 4, 8, 10]" "[]"] by simp

text \<open>
  C7. A constant-frame-rate stream of 10 frames with key frames at ids 0, 4 and 8 gives
  the boundary table \<open>[0, 4, 8, 10]\<close>, and the request for frame id 6 maps to the GOP
  with first frame id 4 and length 4.
\<close>

theorem seek_determinism_example:
  assumes "sorts_by_timestamp std_sort"
  shows "parse_gop_start_idx std_sort AV_CODEC_ID_H264
           [key_packet 0, plain_packet 1, plain_packet 2, plain_packet 3, key_packet 4,
            plain_packet 5, plain_packet 6, plain_packet 7, key_packet 8, plain_packet 9]
           Map.empty Map.empty False = Inr ([0, 4, 8, 10], Map.empty, Map.empty) \<and>
         parse_gop_length [0, 4, 8, 10] [6] [] = Inr ([4], [4])"
proof -
  let ?stream = "[key_packet 0, plain_packet 1, plain_packet 2, plain_packet 3, key_packet 4,
                  plain_packet 5, plain_packet 6, plain_packet 7, key_packet 8, plain_packet 9]"
  have "parse_gop_start_idx std_sort AV_CODEC_ID_H264 ?stream Map.empty Map.empty False =
        parse_gop_start_idx (sort_key fst) AV_CODEC_ID_H264 ?stream Map.empty Map.empty False"
    using parse_gop_start_idx_distinct_timestamps [OF assms demux_ten_packets] by simp
  also have "\<dots> = Inr ([0, 4, 8, 10], Map.empty, Map.empty)"
    unfolding parse_gop_start_idx_def demux_ten_packets by simp
  finally have table: "parse_gop_start_idx std_sort AV_CODEC_ID_H264 ?stream Map.empty Map.empty
                         False = Inr ([0, 4, 8, 10], Map.empty, Map.empty)" .
  have "parse_gop_length [0, 4, 8, 10] [6] [] = Inr ([4], [4])"
    by (simp add: parse_gop_length_def upper_bound_def lower_bound_def gop_length_loop.simps
        to_int32_def)
  with table show ?thesis by simp
qed

theorem seek_determinism_example_witness:
  "sorts_by_timestamp (sort_key fst) \<and>
   parse_gop_start_idx (sort_key fst) AV_CODEC_ID_H264
     [key_packet 0, plain_packet 1, plain_packet 2, plain_packet 3, key_packet 4,
      plain_packet 5, plain_packet 6, plain_packet 7, key_packet 8, plain_packet 9]
     Map.empty Map.empty False = Inr ([0, 4, 8, 10], Map.empty, Map.empty) \<and>
   parse_gop_length [0, 4, 8, 10] [6] [] = Inr ([4], [4])"
  using seek_determinism_example [OF sort_key_sorts_by_timestamp] sort_key_sorts_by_timestamp
  by simp

section \<open>Properties of the key-frame lookup\<close>

lemma lower_bound_all_less: "\<forall>x \<in> set xs. x < v \<Longrightarrow> lower_bound xs v = length xs"
proof -
  assume "\<forall>x \<in> set xs. x < v"
  then have "takeWhile (\<lambda>x. x < v) xs = xs"
    by (simp add: takeWhile_eq_all_conv)
  then show ?thesis
    by (simp only: lower_bound_def)
qed

lemma strict_sorted_nth_le:
  fixes xs :: "int list"
  assumes "sorted_wrt (<) xs" and "a \<le> b" and "b < length xs"
  shows "xs ! a \<le> xs ! b"
proof (cases "a = b")
  case True
  then show ?thesis by simp
next
  case False
  then have "a < b"
    using assms(2) by simp
  then have "xs ! a < xs ! b"
    using assms(1,3) by (simp add: sorted_wrt_iff_nth_less)
  then show ?thesis by simp
qed

lemma lower_bound_hd: "xs \<noteq> [] \<Longrightarrow> v \<le> hd xs \<Longrightarrow> lower_bound xs v = 0"
  by (cases xs) (auto simp: lower_bound_def)

text \<open>
  C10. For a non-empty, strictly increasing table and a frame id between its first and
  its last entry, \<open>getKeyFrameId\<close> reads inside the table only and returns the greatest
  key-frame id that is not above the frame id; for a frame id below the first or above
  the last entry the dereference is outside the table and the guarded model has no
  value.
\<close>

theorem getKeyFrameId_in_range:
  assumes "key_frame_ids \<noteq> []" and "sorted_wrt (<) key_frame_ids"
  shows "(hd key_frame_ids \<le> frame_id \<and> frame_id \<le> last key_frame_ids \<longrightarrow>
            getKeyFrameId key_frame_ids frame_id =
              Some (Max (set (filter (\<lambda>k. k \<le> frame_id) key_frame_ids)))) \<and>
         (frame_id < hd key_frame_ids \<or> last key_frame_ids < frame_id \<longrightarrow>
            getKeyFrameId key_frame_ids frame_id = None)"
proof (intro conjI impI)
  let ?ks = key_frame_ids and ?i = "lower_bound key_frame_ids frame_id"
  let ?S = "set (filter (\<lambda>k. k \<le> frame_id) ?ks)"
  have mono: "?ks ! a < ?ks ! b" if "a < b" "b < length ?ks" for a b
    using assms(2) that by (simp add: sorted_wrt_iff_nth_less)
  {
    assume range: "hd ?ks \<le> frame_id \<and> frame_id \<le> last ?ks"
    have "\<not> ?i = length ?ks"
    proof
      assume "?i = length ?ks"
      then have "?ks ! (length ?ks - 1) < frame_id"
        using assms(1) by (intro lower_bound_before) simp
      then show False
        using range assms(1) by (simp add: last_conv_nth)
    qed
    then have i: "?i < length ?ks"
      using lower_bound_le_length [of ?ks frame_id] by simp
    then have ge: "frame_id \<le> ?ks ! ?i"
      by (rule lower_bound_nth_ge)
    have above: "frame_id < ?ks ! j" if "?i < j" "j < length ?ks" for j
      using ge mono [OF that] by simp
    show "getKeyFrameId ?ks frame_id = Some (Max ?S)"
    proof (cases "?ks ! ?i = frame_id")
      case True
      have "Max ?S = frame_id"
      proof (rule Max_eqI)
        show "frame_id \<in> ?S"
          using True i nth_mem [OF i] by simp
      qed auto
      then show ?thesis
        using True i by (simp add: getKeyFrameId_def)
    next
      case False
      then have gt: "frame_id < ?ks ! ?i"
        using ge by simp
      have pos: "0 < ?i"
      proof (rule ccontr)
        assume "\<not> 0 < ?i"
        then have "?ks ! ?i = hd ?ks"
          using assms(1) by (simp add: hd_conv_nth)
        then show False
          using gt range by simp
      qed
      then have below: "?ks ! (?i - 1) < frame_id"
        by (intro lower_bound_before) simp
      have "Max ?S = ?ks ! (?i - 1)"
      proof (rule Max_eqI)
        show "?ks ! (?i - 1) \<in> ?S"
          using below i nth_mem [of "?i - 1" ?ks] by simp
      next
        fix y
        assume "y \<in> ?S"
        then obtain j where j: "j < length ?ks" "?ks ! j = y" "y \<le> frame_id"
          by (auto simp: in_set_conv_nth)
        have "\<not> ?i < j"
          using above [of j] j by auto
        moreover have "j \<noteq> ?i"
          using gt j by auto
        ultimately have le: "j \<le> ?i - 1"
          by simp
        have bound: "?i - 1 < length ?ks"
          using i by simp
        show "y \<le> ?ks ! (?i - 1)"
          using strict_sorted_nth_le [OF assms(2) le bound] j(2) by simp
      qed simp
      then show ?thesis
        using False i pos by (simp add: getKeyFrameId_def)
    qed
  }
  {
    assume out: "frame_id < hd ?ks \<or> last ?ks < frame_id"
    show "getKeyFrameId ?ks frame_id = None"
    proof (cases "frame_id < hd ?ks")
      case True
      then have "?i = 0"
        using assms(1) by (intro lower_bound_hd) auto
      moreover have "?ks ! 0 \<noteq> frame_id"
        using True assms(1) by (simp add: hd_conv_nth)
      ultimately show ?thesis
        by (simp add: getKeyFrameId_def)
    next
      case False
      then have last: "last ?ks < frame_id"
        using out by simp
      have "\<forall>x \<in> set ?ks. x < frame_id"
      proof
        fix x
        assume "x \<in> set ?ks"
        then obtain j where j: "j < length ?ks" "?ks ! j = x"
          by (auto simp: in_set_conv_nth)
        have "j \<le> length ?ks - 1" "length ?ks - 1 < length ?ks"
          using j(1) by simp_all
        then have "?ks ! j \<le> ?ks ! (length ?ks - 1)"
          by (rule strict_sorted_nth_le [OF assms(2)])
        then have "x \<le> last ?ks"
          using j(2) assms(1) by (simp add: last_conv_nth)
        then show "x < frame_id"
          using last by simp
      qed
      then have "?i = length ?ks"
        by (rule lower_bound_all_less)
      then show ?thesis
        by (simp add: getKeyFrameId_def)
    qed
  }
qed

theorem getKeyFrameId_in_range_witness:
  "getKeyFrameId [0, 4, 8, 10] 6 = Some 4 \<and> getKeyFrameId [0, 4, 8, 10] 11 = None \<and>
   getKeyFrameId [2, 4, 8, 10] 1 = None"
  using getKeyFrameId_in_range [of "[0, 4, 8, 10]" 6] getKeyFrameId_in_range [of "[0, 4, 8, 10]" 11]
    getKeyFrameId_in_range [of "[2, 4, 8, 10]" 1]
  by simp

section \<open>Properties of the unmapped seek\<close>

lemma seek_loop_found:
  assumes "seek_loop fuel demuxer target current found s vars = Some (Inr (True, vars', s'))"
    and "found \<Longrightarrow>
           hasKeyFrameNalType (GetVideoCodec demuxer) (ppVideo vars) = Inr True \<and>
           frame_id_out vars \<le> target"
  shows "hasKeyFrameNalType (GetVideoCodec demuxer) (ppVideo vars') = Inr True \<and>
         frame_id_out vars' \<le> target"
  using assms
proof (induction fuel arbitrary: current found s vars)
  case 0
  then show ?case by simp
next
  case (Suc fuel)
  show ?case
  proof (cases "\<not> found \<and> 0 \<le> current")
    case False
    then show ?thesis
      using Suc.prems by auto
  next
    case True
    obtain call s1 where call: "SeekWithTS demuxer s (to_int32 (TsFromFrameNumber demuxer current)) = (call, s1)"
      by (cases "SeekWithTS demuxer s (to_int32 (TsFromFrameNumber demuxer current))") auto
    let ?vars2 = "vars\<lparr>ppVideo := seek_pVideo call, pnVideoBytes := seek_nVideoBytes call,
                       frame_id_out := FrameNumFromTs demuxer (timestamp_out call)\<rparr>"
    have ret: "seek_ret call" and ptr: "seek_pVideo call \<noteq> None"
      using Suc.prems(1) True call by (auto simp: Let_def split: if_splits)
    show ?thesis
    proof (cases "hasKeyFrameNalType (GetVideoCodec demuxer) (seek_pVideo call)")
      case (Inl e)
      then show ?thesis
        using Suc.prems(1) True call ret ptr by (simp add: Let_def)
    next
      case (Inr k)
      show ?thesis
      proof (cases k)
        case False
        then have "seek_loop fuel demuxer target (frame_id_out ?vars2 - 1) False s1 ?vars2 =
                     Some (Inr (True, vars', s'))"
          using Suc.prems(1) True call ret ptr Inr by (simp add: Let_def split: if_splits)
        then show ?thesis
          by (rule Suc.IH) simp
      next
        case k: True
        show ?thesis
        proof (cases "target < frame_id_out ?vars2")
          case True
          then have "seek_loop fuel demuxer target (current - 1) False s1 ?vars2 =
                       Some (Inr (True, vars', s'))"
            using Suc.prems(1) \<open>\<not> found \<and> 0 \<le> current\<close> call ret ptr Inr k by (simp add: Let_def)
          then show ?thesis
            by (rule Suc.IH) simp
        next
          case False
          then have loop: "seek_loop fuel demuxer target current True s1 ?vars2 =
                             Some (Inr (True, vars', s'))"
            using Suc.prems(1) \<open>\<not> found \<and> 0 \<le> current\<close> call ret ptr Inr k by (simp add: Let_def)
          show ?thesis
            using Suc.IH [OF loop] False Inr k by simp
        qed
      qed
    qed
  qed
qed

text \<open>
  C9. Whenever \<open>SeekGopFirstFrameNoMap\<close> returns true (which it does on
  constant-frame-rate streams only), the packet it leaves in \<^verbatim>\<open>*ppVideo\<close> is classified
  as a GOP start by \<open>hasKeyFrameNalType\<close>, and \<^verbatim>\<open>frame_id_out\<close> is less than or equal to
  the requested frame id.
\<close>

theorem SeekGopFirstFrameNoMap_found:
  assumes "SeekGopFirstFrameNoMap fuel demuxer s vars frame_id_to_seek = Some (Inr (True, vars', s'))"
  shows "\<not> IsVFRV2 demuxer \<and>
         hasKeyFrameNalType (GetVideoCodec demuxer) (ppVideo vars') = Inr True \<and>
         frame_id_out vars' \<le> frame_id_to_seek"
proof -
  have cfr: "\<not> IsVFRV2 demuxer"
    using assms by (auto simp: SeekGopFirstFrameNoMap_def split: if_splits)
  then have loop: "seek_loop fuel demuxer frame_id_to_seek frame_id_to_seek False s vars =
                     Some (Inr (True, vars', s'))"
    using assms by (simp add: SeekGopFirstFrameNoMap_def)
  show ?thesis
    using cfr seek_loop_found [OF loop] by simp
qed

lemma cfr_seek_6:
  "SeekGopFirstFrameNoMap (Suc (Suc 0)) cfr_demuxer ()
     \<lparr>ppVideo = None, pnVideoBytes = 0, frame_id_out = 0\<rparr> 6 =
   Some (Inr (True, \<lparr>ppVideo = ptr_to [0, 0, 0, 1, 0x67], pnVideoBytes = 5, frame_id_out = 4\<rparr>, ()))"
  by (simp add: SeekGopFirstFrameNoMap_def cfr_demuxer_def to_int32_def hasKeyFrameNalType_def
      ptr_to_def nal_header_def)

theorem SeekGopFirstFrameNoMap_found_witness:
  "SeekGopFirstFrameNoMap (Suc (Suc 0)) cfr_demuxer ()
     \<lparr>ppVideo = None, pnVideoBytes = 0, frame_id_out = 0\<rparr> 6 =
   Some (Inr (True, \<lparr>ppVideo = ptr_to [0, 0, 0, 1, 0x67], pnVideoBytes = 5, frame_id_out = 4\<rparr>, ())) \<and>
   hasKeyFrameNalType (GetVideoCodec cfr_demuxer) (ptr_to [0, 0, 0, 1, 0x67]) = Inr True \<and>
   (4::int) \<le> 6"
  using SeekGopFirstFrameNoMap_found [OF cfr_seek_6] cfr_seek_6 by simp

section \<open>Properties of the task runner\<close>

lemma threadLoop_Nil: "tasks r = [] \<Longrightarrow> threadLoop r = r"
  by (subst threadLoop.simps) simp

lemma threadLoop_Cons:
  "tasks r = task # rest \<Longrightarrow>
     threadLoop r =
       threadLoop
         (case task of
            None \<Rightarrow> r\<lparr>tasks := rest, busy := False\<rparr>
          | Some ex \<Rightarrow> r\<lparr>tasks := rest, exceptionPtr := Some ex, hasException := True, busy := False\<rparr>)"
  by (subst threadLoop.simps) (simp add: Let_def split: option.splits thrown.splits)

text \<open>What the worker leaves once it has run a list of tasks.\<close>

lemma threadLoop_result:
  "tasks r = ts \<Longrightarrow>
     threadLoop r =
       r\<lparr>tasks := [],
         busy := (if ts = [] then busy r else False),
         hasException := (hasException r \<or> filter (\<lambda>t. t \<noteq> None) ts \<noteq> []),
         exceptionPtr := (if filter (\<lambda>t. t \<noteq> None) ts = [] then exceptionPtr r
                          else last (filter (\<lambda>t. t \<noteq> None) ts))\<rparr>"
proof (induction ts arbitrary: r)
  case Nil
  then show ?case by (simp add: threadLoop_Nil)
next
  case (Cons task rest)
  show ?case
  proof (cases task)
    case None
    let ?r1 = "r\<lparr>tasks := rest, busy := False\<rparr>"
    have "threadLoop r = threadLoop ?r1"
      using threadLoop_Cons [OF Cons.prems] None by simp
    also have "\<dots> = ?r1\<lparr>tasks := [],
         busy := (if rest = [] then busy ?r1 else False),
         hasException := (hasException ?r1 \<or> filter (\<lambda>t. t \<noteq> None) rest \<noteq> []),
         exceptionPtr := (if filter (\<lambda>t. t \<noteq> None) rest = [] then exceptionPtr ?r1
                          else last (filter (\<lambda>t. t \<noteq> None) rest))\<rparr>"
      by (rule Cons.IH) simp
    finally show ?thesis
      using None by simp
  next
    case (Some ex)
    let ?r1 = "r\<lparr>tasks := rest, exceptionPtr := Some ex, hasException := True, busy := False\<rparr>"
    have "threadLoop r = threadLoop ?r1"
      using threadLoop_Cons [OF Cons.prems] Some by simp
    also have "\<dots> = ?r1\<lparr>tasks := [],
         busy := (if rest = [] then busy ?r1 else False),
         hasException := (hasException ?r1 \<or> filter (\<lambda>t. t \<noteq> None) rest \<noteq> []),
         exceptionPtr := (if filter (\<lambda>t. t \<noteq> None) rest = [] then exceptionPtr ?r1
                          else last (filter (\<lambda>t. t \<noteq> None) rest))\<rparr>"
      by (rule Cons.IH) simp
    finally show ?thesis
      using Some by simp
  qed
qed

text \<open>
  The failure flag is never set without a stored exception: this holds of a new runner
  and is kept by \<open>start\<close>, by the worker and by \<open>join\<close>. On such a runner \<open>join\<close> does
  not raise the generic error.
\<close>

lemma stored_exception_new:
  "hasException (new_ThreadRunner :: 'e ThreadRunner) \<longrightarrow>
     exceptionPtr (new_ThreadRunner :: 'e ThreadRunner) \<noteq> None"
  by (simp add: new_ThreadRunner_def)

lemma stored_exception_start:
  "hasException r \<longrightarrow> exceptionPtr r \<noteq> None \<Longrightarrow>
     hasException (start r task) \<longrightarrow> exceptionPtr (start r task) \<noteq> None"
  by (simp add: start_def)

lemma stored_exception_threadLoop:
  assumes "hasException r \<longrightarrow> exceptionPtr r \<noteq> None"
  shows "hasException (threadLoop r) \<longrightarrow> exceptionPtr (threadLoop r) \<noteq> None"
proof (cases "filter (\<lambda>t. t \<noteq> None) (tasks r) = []")
  case True
  then show ?thesis
    using assms threadLoop_result [OF refl, of r] by simp
next
  case False
  then have "last (filter (\<lambda>t. t \<noteq> None) (tasks r)) \<in> set (filter (\<lambda>t. t \<noteq> None) (tasks r))"
    by (rule last_in_set)
  then have "last (filter (\<lambda>t. t \<noteq> None) (tasks r)) \<noteq> None"
    unfolding set_filter by blast
  then show ?thesis
    using False threadLoop_result [OF refl, of r] by simp
qed

lemma stored_exception_join:
  "join r = Some (res, r') \<Longrightarrow> hasException r' \<longrightarrow> exceptionPtr r' \<noteq> None"
  by (auto simp: join_def Let_def split: if_splits option.splits)

lemma join_not_generic:
  "hasException r \<longrightarrow> exceptionPtr r \<noteq> None \<Longrightarrow> join r \<noteq> Some (Inl Unknown_task_failure, r')"
  by (auto simp: join_def Let_def split: if_splits option.splits)

text \<open>
  C5. The claim as stated fails twice. A runner keeps one exception only: of two tasks
  that throw before the \<open>join\<close>, the first one's failure is overwritten and never
  raised. And an exception of a type unknown to the first handler is stored by
  \<^verbatim>\<open>catch (...)\<close> and raised again as itself, not as the generic task-failure error.
\<close>

theorem join_loses_first_failure_and_rethrows_unknown:
  "join (threadLoop (start (start new_ThreadRunner (Some (Std_exception (1::nat))))
                       (Some (Std_exception 2)))) =
     Some (Inl (Task_exception (Std_exception 2)), new_ThreadRunner) \<and>
   join (new_ThreadRunner :: nat ThreadRunner) = Some (Inr (), new_ThreadRunner) \<and>
   join (threadLoop (start new_ThreadRunner (Some (Other_exception (7::nat))))) =
     Some (Inl (Task_exception (Other_exception 7)), new_ThreadRunner)"
proof -
  have two: "threadLoop (start (start new_ThreadRunner (Some (Std_exception (1::nat))))
                          (Some (Std_exception 2))) =
             new_ThreadRunner\<lparr>hasException := True, exceptionPtr := Some (Std_exception 2)\<rparr>"
    by (subst threadLoop_result [OF refl]) (simp add: start_def new_ThreadRunner_def)
  have other: "threadLoop (start new_ThreadRunner (Some (Other_exception (7::nat)))) =
               new_ThreadRunner\<lparr>hasException := True, exceptionPtr := Some (Other_exception 7)\<rparr>"
    by (subst threadLoop_result [OF refl]) (simp add: start_def new_ThreadRunner_def)
  show ?thesis
    unfolding two other by (simp add: join_def new_ThreadRunner_def)
qed

text \<open>
  C5, amended. When queued tasks have thrown, the \<open>join\<close> that follows the worker's
  run raises what the last of them threw, whatever its type, as itself, and clears
  \<^verbatim>\<open>hasException\<close> and \<^verbatim>\<open>exceptionPtr\<close>; a second \<open>join\<close>, after any further tasks
  none of which throws, raises nothing.
\<close>

theorem join_rethrows_once:
  assumes "Some ex0 \<in> set (tasks r)" and "set later \<subseteq> {None}"
  shows "\<exists>ex r'. join (threadLoop r) = Some (Inl (Task_exception ex), r') \<and>
           Some ex = last (filter (\<lambda>t. t \<noteq> None) (tasks r)) \<and>
           \<not> hasException r' \<and> exceptionPtr r' = None \<and>
           (\<exists>r''. join (threadLoop (r'\<lparr>tasks := later\<rparr>)) = Some (Inr (), r''))"
proof -
  have later: "filter (\<lambda>t. t \<noteq> None) later = []"
    using assms(2) by (auto simp: filter_empty_conv)
  let ?fs = "filter (\<lambda>t. t \<noteq> None) (tasks r)"
  have ne: "?fs \<noteq> []"
    using assms(1) by (auto simp: filter_empty_conv)
  then have "last ?fs \<in> set ?fs"
    by (rule last_in_set)
  then have "last ?fs \<noteq> None"
    unfolding set_filter by blast
  then obtain ex where ex: "last ?fs = Some ex"
    by blast
  have nonempty: "tasks r \<noteq> []"
    using assms(1) by auto
  let ?r1 = "threadLoop r"
  have r1: "tasks ?r1 = []" "\<not> busy ?r1" "hasException ?r1" "exceptionPtr ?r1 = Some ex"
    using threadLoop_result [OF refl, of r] ne ex nonempty by simp_all
  let ?r' = "?r1\<lparr>hasException := False, exceptionPtr := None\<rparr>"
  let ?r2 = "threadLoop (?r'\<lparr>tasks := later\<rparr>)"
  have first: "join ?r1 = Some (Inl (Task_exception ex), ?r')"
    using r1 by (simp add: join_def)
  have r2: "tasks ?r2 = []" "\<not> busy ?r2" "\<not> hasException ?r2"
    using threadLoop_result [OF refl, of "?r'\<lparr>tasks := later\<rparr>"] later r1 by simp_all
  then have second: "join ?r2 = Some (Inr (), ?r2)"
    by (simp add: join_def)
  show ?thesis
    using first second ex by (intro exI [of _ ex] exI [of _ ?r']) auto
qed

theorem join_rethrows_once_witness:
  "\<exists>r'. join (threadLoop (start (start (start new_ThreadRunner (Some (Std_exception (3::nat))))
                              (Some (Other_exception 4))) None)) =
           Some (Inl (Task_exception (Other_exception 4)), r') \<and>
         \<not> hasException r' \<and> exceptionPtr r' = None \<and>
         (\<exists>r''. join (threadLoop (r'\<lparr>tasks := [None]\<rparr>)) = Some (Inr (), r''))"
  using join_rethrows_once
    [of "Other_exception 4"
        "start (start (start new_ThreadRunner (Some (Std_exception (3::nat))))
                 (Some (Other_exception 4))) None"
        "[None]"]
  by (simp add: start_def new_ThreadRunner_def)

section \<open>Properties of the async decode pipeline\<close>







end
